theory Spec2Isabelle
  imports Complex_Main "HOL-Library.Word"
begin

unbundle bit_operations_syntax

section \<open>Conventions of the embedding\<close>

text \<open>
  The library \<^verbatim>\<open>patterns.js\<close> (HatTiling, Rosette, Truchet) and the spawn scheduler of
  \<^verbatim>\<open>render-pattern.js\<close> are embedded function by function.

  \<^item> A JavaScript number is a \<open>real\<close>: the arithmetic is exact, rounding, NaN and the
    infinities are not modelled. Numbers that the code only uses as integers (loop
    counters, \<open>numPetals\<close>, seeds) are \<open>int\<close> or \<open>nat\<close>.
  \<^item> The 32-bit integer state of the xorshift generators is a \<open>32 word\<close>.
  \<^item> A point \<open>{x, y}\<close> or \<open>[x, y]\<close> is a pair \<open>(x, y)\<close>.
  \<^item> A loop whose exit depends on its arguments is a \<open>partial_function\<close> in the option
    monad: \<open>None\<close> is a run that does not return.
  \<^item> \<open>Array.prototype.sort\<close> with the comparator \<open>key a - key b\<close> is the stable
    \<open>sort_key key\<close>.
\<close>

section \<open>Math helpers\<close>

type_synonym point = "real \<times> real"

definition TWO_PI :: real where
  "TWO_PI = pi * 2"

text \<open>\<^verbatim>\<open>Math.hypot(a, b)\<close>.\<close>

definition hypot :: "real \<Rightarrow> real \<Rightarrow> real" where
  "hypot a b = sqrt (a * a + b * b)"

text \<open>\<^verbatim>\<open>Math.atan2(y, x)\<close> on the reals (there is no negative zero).\<close>

definition atan2 :: "real \<Rightarrow> real \<Rightarrow> real" where
  "atan2 b a =
     (if 0 < a then arctan (b / a)
      else if a < 0 then (if 0 \<le> b then arctan (b / a) + pi else arctan (b / a) - pi)
      else if 0 < b then pi / 2
      else if b < 0 then - (pi / 2)
      else 0)"

text \<open>The remainder operator \<^verbatim>\<open>%\<close>: the quotient is truncated towards zero, so the result
  has the sign of the dividend. \<open>jsrem\<close> is \<^verbatim>\<open>%\<close> on integers, \<open>jsmod\<close> on numbers.\<close>

definition jsrem :: "int \<Rightarrow> int \<Rightarrow> int" where
  "jsrem a b = sgn a * (\<bar>a\<bar> mod \<bar>b\<bar>)"

definition jsmod :: "real \<Rightarrow> real \<Rightarrow> real" where
  "jsmod a b = a - b * (sgn (a / b) * of_int \<lfloor>\<bar>a / b\<bar>\<rfloor>)"

definition lineIntersect ::
  "real \<Rightarrow> real \<Rightarrow> real \<Rightarrow> real \<Rightarrow> real \<Rightarrow> real \<Rightarrow> real \<Rightarrow> real \<Rightarrow> point option" where
  "lineIntersect ax1 ay1 ax2 ay2 bx1 by1 bx2 by2 =
     (let bvx = ax2 - ax1; bvy = ay2 - ay1;
          dvx = bx2 - bx1; dvy = by2 - by1;
          denom = bvx * dvy - bvy * dvx
      in if \<bar>denom\<bar> < 1 / 10 ^ 10 then None
         else (let cx = bx1 - ax1; cy = by1 - ay1;
                   t = (cx * dvy - cy * dvx) / denom
               in Some (ax1 + t * bvx, ay1 + t * bvy)))"

definition rotPt :: "real \<Rightarrow> real \<Rightarrow> real \<Rightarrow> point" where
  "rotPt x y angle =
     (let c = cos angle; s = sin angle in (x * c - y * s, x * s + y * c))"

section \<open>Loops\<close>

text \<open>\<open>forInt body step bound i st\<close> is the loop
  \<^verbatim>\<open>for (let i = i0; i * step < bound; i++) body\<close> started at \<open>i0 = i\<close> in the state \<open>st\<close>;
  \<open>forStep body step bound v st\<close> is \<^verbatim>\<open>for (let v = v0; v < bound; v += step) body\<close>.\<close>

partial_function (option) forInt ::
  "(int \<Rightarrow> 'a \<Rightarrow> 'a option) \<Rightarrow> real \<Rightarrow> real \<Rightarrow> int \<Rightarrow> 'a \<Rightarrow> 'a option" where
  "forInt body step bound i st =
     (if of_int i * step < bound
      then Option.bind (body i st) (forInt body step bound (i + 1))
      else Some st)"

partial_function (option) forStep ::
  "(real \<Rightarrow> 'a \<Rightarrow> 'a option) \<Rightarrow> real \<Rightarrow> real \<Rightarrow> real \<Rightarrow> 'a \<Rightarrow> 'a option" where
  "forStep body step bound v st =
     (if v < bound
      then Option.bind (body v st) (forStep body step bound (v + step))
      else Some st)"

section \<open>HatTiling\<close>

text \<open>The instance fields \<^verbatim>\<open>this.s\<close> and \<^verbatim>\<open>this.orientSeed\<close>.\<close>

record HatTiling =
  hat_s :: real
  hat_orientSeed :: int

text \<open>A tile \<^verbatim>\<open>{ poly, cx, cy }\<close>.\<close>

datatype tile = Tile "point list" real real


fun tile_cx :: "tile \<Rightarrow> real" where
  "tile_cx (Tile poly cx cy) = cx"

fun tile_cy :: "tile \<Rightarrow> real" where
  "tile_cy (Tile poly cx cy) = cy"

definition kiteVerts :: "(real \<times> real) list" where
  "kiteVerts =
     [(0, 0), (1, 0), (2, 0), (3, 0),
      (3, 1), (2, 1),
      (3, 2), (3, 3), (2, 3),
      (1, 2), (0, 2), (0, 1), (0, 0)]"

definition orientations :: "(bool \<times> real) list" where
  "orientations =
     [(False, 0), (False, 1), (False, 2), (False, 3), (False, 4), (False, 5),
      (True, 0), (True, 2)]"

definition kiteToPixel :: "HatTiling \<Rightarrow> real \<Rightarrow> real \<Rightarrow> bool \<Rightarrow> point" where
  "kiteToPixel hat u v flipX =
     (let s = hat_s hat;
          h = s * sqrt 3 / 2;
          px = u * s + v * (s / 2);
          py = v * h
      in (if flipX then - px else px, py))"

definition tilePoly :: "HatTiling \<Rightarrow> real \<Rightarrow> real \<Rightarrow> nat \<Rightarrow> point list" where
  "tilePoly hat cx cy orientIdx =
     (let flipX = fst (orientations ! (orientIdx mod 8));
          rotSteps = snd (orientations ! (orientIdx mod 8));
          angle = rotSteps * (pi / 3)
      in map (\<lambda>(u, v).
                let p = kiteToPixel hat u v flipX;
                    r = rotPt (fst p) (snd p) angle
                in (cx + fst r, cy + snd r))
             kiteVerts)"

text \<open>The body of the inner loop of \<^verbatim>\<open>generateTiles\<close>: one tile pushed.\<close>

definition hatCell ::
  "HatTiling \<Rightarrow> real \<Rightarrow> real \<Rightarrow> int \<Rightarrow> int \<Rightarrow> tile list \<Rightarrow> tile list" where
  "hatCell hat colStep rowStep row col tiles =
     (let cx = of_int col * colStep + of_int (jsrem row 2) * colStep * 0.5;
          cy = of_int row * rowStep;
          orientIdx =
            unat ((word_of_int (col * 3 + row * 5 + hat_orientSeed hat) :: 32 word) AND 0xff) mod 8
      in tiles @ [Tile (tilePoly hat cx cy orientIdx) cx cy])"

definition tileDist :: "real \<Rightarrow> real \<Rightarrow> tile \<Rightarrow> real" where
  "tileDist midX midY a = hypot (tile_cx a - midX) (tile_cy a - midY)"

definition hatGrid :: "HatTiling \<Rightarrow> real \<Rightarrow> real \<Rightarrow> tile list option" where
  "hatGrid hat width height =
     (let s = hat_s hat;
          h = s * sqrt 3 / 2;
          colStep = s * 4.5;
          rowStep = h * 3;
          pad = max colStep rowStep * 2
      in forInt (\<lambda>row. forInt (\<lambda>col tiles. Some (hatCell hat colStep rowStep row col tiles))
                          colStep (width + pad) (- 2))
           rowStep (height + pad) (- 2) [])"

definition generateTiles :: "HatTiling \<Rightarrow> real \<Rightarrow> real \<Rightarrow> tile list option" where
  "generateTiles hat width height =
     map_option (sort_key (tileDist (width / 2) (height / 2))) (hatGrid hat width height)"

section \<open>Rosette\<close>

text \<open>The instance fields; the constructor derives the middle and inner radius.\<close>

record Rosette =
  numPetals :: nat
  connectEveryN :: nat
  outerRadius :: real
  middleRadius :: real
  innerRadius :: real

definition newRosette :: "nat \<Rightarrow> nat \<Rightarrow> real \<Rightarrow> Rosette" where
  "newRosette n k radius =
     \<lparr>numPetals = n, connectEveryN = k, outerRadius = radius,
      middleRadius = radius * 0.50, innerRadius = radius * 0.21\<rparr>"

text \<open>A line \<^verbatim>\<open>{ x1, y1, x2, y2 }\<close>, and a diagonal extension, which also carries
  \<^verbatim>\<open>_tip\<close>.\<close>

record dline =
  x1 :: real
  y1 :: real
  x2 :: real
  y2 :: real

record dext = dline +
  tip :: point

text \<open>The draw commands of the seven phases. The last argument is the opacity; a line
  carries its \<^verbatim>\<open>kind\<close>.\<close>

datatype cmd =
    CircleCmd real real real real
  | LineCmd dline string real
  | ExtensionCmd dext string real
  | PetalCmd "point list" real
  | DiamondCmd "point list" real

text \<open>The \<open>n\<close> points on the circle of radius \<open>rad\<close>: the first loop of \<^verbatim>\<open>build\<close> fills
  \<^verbatim>\<open>extPts\<close>, \<^verbatim>\<open>middlePts\<close> and \<^verbatim>\<open>innerPts\<close> this way.\<close>

definition circlePts :: "nat \<Rightarrow> real \<Rightarrow> real \<Rightarrow> real \<Rightarrow> point list" where
  "circlePts n cx cy rad =
     map (\<lambda>i. let a = (TWO_PI / real n) * real i in (cx + rad * cos a, cy + rad * sin a))
       [0..<n]"

definition outerLinesOf :: "nat \<Rightarrow> nat \<Rightarrow> point list \<Rightarrow> dline list" where
  "outerLinesOf n skip extPts =
     map (\<lambda>i. let a = extPts ! i; b = extPts ! ((i + skip) mod n)
              in \<lparr>x1 = fst a, y1 = snd a, x2 = fst b, y2 = snd b\<rparr>)
       [0..<n]"

definition radialLinesOf :: "nat \<Rightarrow> real \<Rightarrow> real \<Rightarrow> point list \<Rightarrow> dline list" where
  "radialLinesOf n cx cy extPts =
     map (\<lambda>i. \<lparr>x1 = cx, y1 = cy, x2 = fst (extPts ! i), y2 = snd (extPts ! i)\<rparr>) [0..<n]"

definition diagLinesOf :: "nat \<Rightarrow> point list \<Rightarrow> point list \<Rightarrow> dline list" where
  "diagLinesOf n middlePts innerPts =
     map (\<lambda>i. let m0 = middlePts ! i; i1 = innerPts ! ((i + 1) mod n)
              in \<lparr>x1 = fst m0, y1 = snd m0, x2 = fst i1, y2 = snd i1\<rparr>)
       [0..<n]
     @
     map (\<lambda>i. let m1 = middlePts ! ((i + 1) mod n); i0 = innerPts ! i
              in \<lparr>x1 = fst m1, y1 = snd m1, x2 = fst i0, y2 = snd i0\<rparr>)
       [0..<n]"

text \<open>The search for the nearest outer line. The pair is \<^verbatim>\<open>(bestDist, bestPt)\<close>; \<open>None\<close> is
  the initial \<^verbatim>\<open>(Infinity, null)\<close>, below which every distance lies.\<close>

definition nearestOuter ::
  "dline list \<Rightarrow> real \<Rightarrow> real \<Rightarrow> real \<Rightarrow> real \<Rightarrow> (real \<times> point) option" where
  "nearestOuter outerLines nx ny tx ty =
     fold (\<lambda>ol best.
             case lineIntersect nx ny tx ty (x1 ol) (y1 ol) (x2 ol) (y2 ol) of
               None \<Rightarrow> best
             | Some pt \<Rightarrow>
                 (let dd = hypot (fst pt - tx) (snd pt - ty)
                  in case best of
                       None \<Rightarrow> Some (dd, pt)
                     | Some (bestDist, bestPt) \<Rightarrow>
                         if dd < bestDist then Some (dd, pt) else best))
       outerLines None"

text \<open>One turn of the loop over \<^verbatim>\<open>diagLines\<close>: the extensions pushed (none or one).\<close>

definition diagExtOf :: "real \<Rightarrow> real \<Rightarrow> dline list \<Rightarrow> dline \<Rightarrow> dext list" where
  "diagExtOf cx cy outerLines dl =
     (let d1 = hypot (x1 dl - cx) (y1 dl - cy);
          d2 = hypot (x2 dl - cx) (y2 dl - cy);
          tx = (if d1 > d2 then x1 dl else x2 dl);
          ty = (if d1 > d2 then y1 dl else y2 dl);
          nx = (if d1 > d2 then x2 dl else x1 dl);
          ny = (if d1 > d2 then y2 dl else y1 dl)
      in case nearestOuter outerLines nx ny tx ty of
           None \<Rightarrow> []
         | Some (bestDist, bestPt) \<Rightarrow>
             [\<lparr>x1 = tx, y1 = ty, x2 = fst bestPt, y2 = snd bestPt, tip = bestPt\<rparr>])"

definition diagExtsOf :: "real \<Rightarrow> real \<Rightarrow> dline list \<Rightarrow> dline list \<Rightarrow> dext list" where
  "diagExtsOf cx cy outerLines diagLines = concat (map (diagExtOf cx cy outerLines) diagLines)"

text \<open>The angular distance of an extension's tip from the axis of a petal, and the search
  for the tip of a petal. The pair is \<^verbatim>\<open>(tipDist, tip)\<close>, \<open>None\<close> is \<^verbatim>\<open>null\<close>. Every
  extension has its \<^verbatim>\<open>_tip\<close>, so the test \<^verbatim>\<open>!ext._tip\<close> never holds.\<close>

definition tipDelta :: "real \<Rightarrow> real \<Rightarrow> real \<Rightarrow> dext \<Rightarrow> real" where
  "tipDelta cx cy anglePetal ext =
     (let a = atan2 (snd (tip ext) - cy) (fst (tip ext) - cx)
      in \<bar>jsmod (a - anglePetal + pi * 3) TWO_PI - pi\<bar>)"

definition petalTip ::
  "real \<Rightarrow> real \<Rightarrow> real \<Rightarrow> real \<Rightarrow> dext list \<Rightarrow> real \<times> point option" where
  "petalTip cx cy dRad anglePetal diagExt =
     fold (\<lambda>ext (tipDist, tp).
             if tipDelta cx cy anglePetal ext < dRad * 0.6
             then (let dd = hypot (fst (tip ext) - cx) (snd (tip ext) - cy)
                   in if dd > tipDist then (dd, Some (tip ext)) else (tipDist, tp))
             else (tipDist, tp))
       diagExt (0, None)"

text \<open>One turn of the loop over the sectors: the petals pushed (none or one).\<close>

definition petalOf ::
  "nat \<Rightarrow> real \<Rightarrow> real \<Rightarrow> point list \<Rightarrow> dline list \<Rightarrow> dext list \<Rightarrow> nat \<Rightarrow> point list list" where
  "petalOf n cx cy middlePts diagLines diagExt i =
     (let dRad = TWO_PI / real n;
          cwDiag = diagLines ! i;
          ccwDiag = diagLines ! (n + i)
      in case lineIntersect (x1 cwDiag) (y1 cwDiag) (x2 cwDiag) (y2 cwDiag)
                (x1 ccwDiag) (y1 ccwDiag) (x2 ccwDiag) (y2 ccwDiag) of
           None \<Rightarrow> []
         | Some innerVtx \<Rightarrow>
             (let leftOuter = middlePts ! i;
                  rightOuter = middlePts ! ((i + 1) mod n);
                  anglePetal = dRad * (real i + 0.5)
              in [[innerVtx, leftOuter]
                  @ (case snd (petalTip cx cy dRad anglePetal diagExt) of
                       None \<Rightarrow> []
                     | Some tp \<Rightarrow> [tp])
                  @ [rightOuter]]))"

definition petalsOf ::
  "nat \<Rightarrow> real \<Rightarrow> real \<Rightarrow> point list \<Rightarrow> dline list \<Rightarrow> dext list \<Rightarrow> point list list" where
  "petalsOf n cx cy middlePts diagLines diagExt =
     concat (map (petalOf n cx cy middlePts diagLines diagExt) [0..<n])"

definition diamondsOf :: "nat \<Rightarrow> real \<Rightarrow> real \<Rightarrow> real \<Rightarrow> point list \<Rightarrow> point list list" where
  "diamondsOf n cx cy ir innerPts =
     map (\<lambda>i. let dRad = TWO_PI / real n;
                  a = dRad * real i;
                  top = innerPts ! i;
                  left = (cx + ir * 0.55 * cos (a - dRad * 0.5), cy + ir * 0.55 * sin (a - dRad * 0.5));
                  bottom = (cx, cy);
                  right = (cx + ir * 0.55 * cos (a + dRad * 0.5), cy + ir * 0.55 * sin (a + dRad * 0.5))
              in [left, top, right, bottom])
       [0..<n]"

text \<open>\<^verbatim>\<open>build(cx, cy)\<close>: the list \<^verbatim>\<open>phases\<close> of the object returned.\<close>

definition build :: "Rosette \<Rightarrow> real \<Rightarrow> real \<Rightarrow> cmd list list" where
  "build ros cx cy =
     (let n = numPetals ros;
          orad = outerRadius ros;
          mrad = middleRadius ros;
          irad = innerRadius ros;
          skip = connectEveryN ros;
          extPts = circlePts n cx cy orad;
          middlePts = circlePts n cx cy mrad;
          innerPts = circlePts n cx cy irad;
          outerLines = outerLinesOf n skip extPts;
          radialLines = radialLinesOf n cx cy extPts;
          diagLines = diagLinesOf n middlePts innerPts;
          diagExt = diagExtsOf cx cy outerLines diagLines;
          petals = petalsOf n cx cy middlePts diagLines diagExt;
          diamonds = diamondsOf n cx cy irad innerPts
      in [[CircleCmd cx cy orad 0.06, CircleCmd cx cy mrad 0.06, CircleCmd cx cy irad 0.06],
          map (\<lambda>l. LineCmd l ''radial'' 0.12) radialLines,
          map (\<lambda>l. LineCmd l ''outer'' 0.55) outerLines,
          map (\<lambda>l. LineCmd l ''diagonal'' 0.35) diagLines,
          map (\<lambda>l. ExtensionCmd l ''extension'' 0.55) diagExt,
          map (\<lambda>pts. PetalCmd pts 0.15) petals,
          map (\<lambda>pts. DiamondCmd pts 0.22) diamonds])"

text \<open>\<^verbatim>\<open>rose.phases.forEach((ph, pi) => { if (pi < maxPhases) merged[pi].push(...ph); })\<close>\<close>

definition mergePhases :: "nat \<Rightarrow> cmd list list \<Rightarrow> cmd list list \<Rightarrow> cmd list list" where
  "mergePhases maxPhases merged phases =
     fold (\<lambda>(ph, pi) m. if pi < maxPhases then m[pi := m ! pi @ ph] else m)
       (zip phases [0..<length phases]) merged"

text \<open>The centre of the rosette of a grid cell, and the body of the inner loop of
  \<^verbatim>\<open>tile\<close>.\<close>

definition roseCentre :: "real \<Rightarrow> real \<Rightarrow> int \<Rightarrow> int \<Rightarrow> point" where
  "roseCentre spacing rowH row col =
     (of_int col * spacing + of_int (jsrem row 2) * spacing * 0.5, of_int row * rowH)"

definition tileCell ::
  "Rosette \<Rightarrow> real \<Rightarrow> real \<Rightarrow> int \<Rightarrow> int \<Rightarrow> cmd list list \<Rightarrow> cmd list list" where
  "tileCell ros spacing rowH row col merged =
     (let c = roseCentre spacing rowH row col;
          rose = build ros (fst c) (snd c)
      in mergePhases 7 merged rose)"

definition rosetteTile :: "Rosette \<Rightarrow> real \<Rightarrow> real \<Rightarrow> cmd list list option" where
  "rosetteTile ros width height =
     (let spacing = outerRadius ros * 2.08;
          rowH = spacing * sqrt 3 / 2;
          maxPhases = 7;
          merged = replicate maxPhases []
      in forInt (\<lambda>row. forInt (\<lambda>col m. Some (tileCell ros spacing rowH row col m))
                          spacing (width + spacing) (- 1))
           rowH (height + spacing) (- 1) merged)"

section \<open>Truchet\<close>

record Truchet =
  baseSize :: real
  minSize :: real
  splitProb :: real

text \<open>An arc command: \<^verbatim>\<open>cx\<close>, \<^verbatim>\<open>cy\<close>, \<^verbatim>\<open>r\<close>, \<^verbatim>\<open>startAngle\<close>, \<^verbatim>\<open>endAngle\<close>, \<^verbatim>\<open>ccw\<close>, \<^verbatim>\<open>midX\<close>,
  \<^verbatim>\<open>midY\<close>, in this order.\<close>

datatype arc = Arc real real real real real bool real real



fun arc_midX :: "arc \<Rightarrow> real" where
  "arc_midX (Arc cx cy r startAngle endAngle ccw midX midY) = midX"

fun arc_midY :: "arc \<Rightarrow> real" where
  "arc_midY (Arc cx cy r startAngle endAngle ccw midX midY) = midY"

datatype cellType = TypeA | TypeB

text \<open>The recurrence \<^verbatim>\<open>x ^= x << 13; x ^= x >> 17; x ^= x << 5\<close> on a 32-bit integer
  (\<^verbatim>\<open>>>\<close> keeps the sign), and \<^verbatim>\<open>rand\<close>: the state advances by one step and the result is
  \<^verbatim>\<open>(rng >>> 0) / 0xFFFFFFFF\<close>.\<close>

definition xorshift :: "32 word \<Rightarrow> 32 word" where
  "xorshift x =
     (let xa = x XOR push_bit 13 x;
          xb = xa XOR signed_drop_bit 17 xa
      in xb XOR push_bit 5 xb)"

definition rand :: "32 word \<Rightarrow> real \<times> 32 word" where
  "rand rng = (let rng' = xorshift rng in (real (unat rng') / 4294967295, rng'))"

text \<open>\<^verbatim>\<open>processCell\<close> calls the closure \<^verbatim>\<open>rand\<close>, which it gets here as the argument
  \<open>rnd\<close>: a function from the state of the generator to the number drawn and the next
  state. The state of \<^verbatim>\<open>generate\<close> is the pair of this state and the array \<^verbatim>\<open>cmds\<close>.

  \<open>terminalCell\<close> is the \<^verbatim>\<open>else\<close> branch of \<^verbatim>\<open>processCell\<close>.\<close>

definition terminalCell ::
  "('g \<Rightarrow> real \<times> 'g) \<Rightarrow> real \<Rightarrow> real \<Rightarrow> real \<Rightarrow> 'g \<times> arc list \<Rightarrow> 'g \<times> arc list" where
  "terminalCell rnd x y size' st =
     (let r = size' / 2;
          d = rnd (fst st);
          ctype = (if fst d < 0.5 then TypeA else TypeB);
          midX = x + r;
          midY = y + r
      in case ctype of
           TypeA \<Rightarrow>
             (snd d, snd st @
                [Arc x (y + size') r (- pi / 2) 0 False midX midY,
                 Arc (x + size') y r (pi / 2) pi False midX midY])
         | TypeB \<Rightarrow>
             (snd d, snd st @
                [Arc x y r 0 (pi / 2) False midX midY,
                 Arc (x + size') (y + size') r pi (3 * pi / 2) False midX midY]))"

partial_function (option) processCell ::
  "('g \<Rightarrow> real \<times> 'g) \<Rightarrow> Truchet \<Rightarrow> real \<Rightarrow> real \<Rightarrow> real \<Rightarrow> 'g \<times> arc list
     \<Rightarrow> ('g \<times> arc list) option" where
  "processCell rnd t x y size' st =
     (if minSize t < size'
      then (if fst (rnd (fst st)) < splitProb t
            then Option.bind (processCell rnd t x y (size' / 2) (snd (rnd (fst st)), snd st))
                   (\<lambda>sa. Option.bind (processCell rnd t (x + size' / 2) y (size' / 2) sa)
                   (\<lambda>sb. Option.bind (processCell rnd t x (y + size' / 2) (size' / 2) sb)
                   (\<lambda>sc. processCell rnd t (x + size' / 2) (y + size' / 2) (size' / 2) sc)))
            else Some (terminalCell rnd x y size' (snd (rnd (fst st)), snd st)))
      else Some (terminalCell rnd x y size' st))"

definition arcDist :: "real \<Rightarrow> real \<Rightarrow> arc \<Rightarrow> real" where
  "arcDist midX midY a = hypot (arc_midX a - midX) (arc_midY a - midY)"

text \<open>The two loops of \<^verbatim>\<open>generate\<close> over the grid, from the state \<^verbatim>\<open>rng = seed | 0\<close>,
  \<^verbatim>\<open>cmds = []\<close>; then \<^verbatim>\<open>generate\<close>, which sorts the commands.\<close>

definition truchetGrid ::
  "Truchet \<Rightarrow> real \<Rightarrow> real \<Rightarrow> int \<Rightarrow> (32 word \<times> arc list) option" where
  "truchetGrid t width height seed =
     (let pad = baseSize t
      in forStep (\<lambda>y. forStep (\<lambda>x. processCell rand t x y (baseSize t))
                         (baseSize t) (width + pad) (- pad))
           (baseSize t) (height + pad) (- pad) (word_of_int seed, []))"

definition generate :: "Truchet \<Rightarrow> real \<Rightarrow> real \<Rightarrow> int \<Rightarrow> arc list option" where
  "generate t width height seed =
     map_option (\<lambda>st. sort_key (arcDist (width / 2) (height / 2)) (snd st))
       (truchetGrid t width height seed)"

text \<open>A generator that counts its calls: \<open>counting rnd\<close> draws what \<open>rnd\<close> draws, and its
  state also holds the number of draws made so far.\<close>

definition counting :: "('g \<Rightarrow> real \<times> 'g) \<Rightarrow> 'g \<times> nat \<Rightarrow> real \<times> ('g \<times> nat)" where
  "counting rnd gk = (fst (rnd (fst gk)), (snd (rnd (fst gk)), Suc (snd gk)))"

section \<open>The animation driver\<close>


text \<open>A drawable unit: its geometry and style are the \<open>payload\<close>, which no frame changes;
  \<open>born\<close> is the frame of its spawn, \<open>-1\<close> before it.\<close>

record 'a drawable =
  payload :: 'a
  born :: int

record 'a Scene =
  sceneType :: string
  tiles :: "'a drawable list"
  tilesPerTick :: nat
  holdLimit :: nat
  breatheSpeed :: real
  spawnIdx :: nat
  done' :: bool
  holdAge :: nat
  alpha :: real
  fadingOut :: bool









section \<open>Notions used in the statements\<close>

text \<open>The determinant of the system that \<^verbatim>\<open>lineIntersect\<close> solves (its \<^verbatim>\<open>denom\<close>), and the
  equation of the infinite line through \<open>(xa, ya)\<close> and \<open>(xb, yb)\<close>.\<close>

definition det2 ::
  "real \<Rightarrow> real \<Rightarrow> real \<Rightarrow> real \<Rightarrow> real \<Rightarrow> real \<Rightarrow> real \<Rightarrow> real \<Rightarrow> real" where
  "det2 ax1 ay1 ax2 ay2 bx1 by1 bx2 by2 =
     (ax2 - ax1) * (by2 - by1) - (ay2 - ay1) * (bx2 - bx1)"

definition onLine :: "point \<Rightarrow> real \<Rightarrow> real \<Rightarrow> real \<Rightarrow> real \<Rightarrow> bool" where
  "onLine p xa ya xb yb \<longleftrightarrow> (fst p - xa) * (yb - ya) = (snd p - ya) * (xb - xa)"

text \<open>The loops, unfolded: a fold in the option monad over the values that the loop
  variable takes. For a positive step these are \<open>countsFrom\<close> for \<open>forInt\<close> and
  \<open>stepsFrom\<close> for \<open>forStep\<close>.\<close>

fun foldM :: "('b \<Rightarrow> 'a \<Rightarrow> 'a option) \<Rightarrow> 'b list \<Rightarrow> 'a \<Rightarrow> 'a option" where
  "foldM f [] st = Some st"
| "foldM f (v # vs) st = Option.bind (f v st) (foldM f vs)"

definition stepsFrom :: "real \<Rightarrow> real \<Rightarrow> real \<Rightarrow> real list" where
  "stepsFrom v step bound = map (\<lambda>k. v + real k * step) [0..<nat \<lceil>(bound - v) / step\<rceil>]"

definition countsFrom :: "int \<Rightarrow> real \<Rightarrow> real \<Rightarrow> int list" where
  "countsFrom i step bound = [i..\<lceil>bound / step\<rceil> - 1]"

text \<open>The top-level cells of \<^verbatim>\<open>generate\<close> in the order of the loops, as \<open>(x, y)\<close>.\<close>

definition truchetCells :: "Truchet \<Rightarrow> real \<Rightarrow> real \<Rightarrow> (real \<times> real) list" where
  "truchetCells t width height =
     concat (map (\<lambda>y. map (\<lambda>x. (x, y))
                          (stepsFrom (- baseSize t) (baseSize t) (width + baseSize t)))
               (stepsFrom (- baseSize t) (baseSize t) (height + baseSize t)))"




text \<open>The number of draws in the state of a run with a counting generator, and that state
  without the counter.\<close>

definition drawsOf :: "('g \<times> nat) \<times> arc list \<Rightarrow> nat" where
  "drawsOf st = snd (fst st)"

definition eraseCount :: "('g \<times> nat) \<times> arc list \<Rightarrow> 'g \<times> arc list" where
  "eraseCount st = (fst (fst st), snd st)"

text \<open>The column and row stride of \<^verbatim>\<open>generateTiles\<close>, its \<^verbatim>\<open>pad\<close>, and the rows and columns
  that its loops visit.\<close>

definition hatColStep :: "HatTiling \<Rightarrow> real" where
  "hatColStep hat = hat_s hat * 4.5"

definition hatRowStep :: "HatTiling \<Rightarrow> real" where
  "hatRowStep hat = hat_s hat * sqrt 3 / 2 * 3"

definition hatPad :: "HatTiling \<Rightarrow> real" where
  "hatPad hat = max (hatColStep hat) (hatRowStep hat) * 2"

definition hatRows :: "HatTiling \<Rightarrow> real \<Rightarrow> int list" where
  "hatRows hat height = countsFrom (- 2) (hatRowStep hat) (height + hatPad hat)"

definition hatCols :: "HatTiling \<Rightarrow> real \<Rightarrow> int list" where
  "hatCols hat width = countsFrom (- 2) (hatColStep hat) (width + hatPad hat)"


text \<open>The spacing and row height of \<^verbatim>\<open>tile\<close>, and the centres of the rosettes that it places,
  in the order of its loops.\<close>

definition roseSpacing :: "Rosette \<Rightarrow> real" where
  "roseSpacing ros = outerRadius ros * 2.08"

definition roseRowH :: "Rosette \<Rightarrow> real" where
  "roseRowH ros = roseSpacing ros * sqrt 3 / 2"

definition roseCentres :: "Rosette \<Rightarrow> real \<Rightarrow> real \<Rightarrow> point list" where
  "roseCentres ros width height =
     concat (map (\<lambda>row. map (\<lambda>col. roseCentre (roseSpacing ros) (roseRowH ros) row col)
                            (countsFrom (- 1) (roseSpacing ros) (width + roseSpacing ros)))
               (countsFrom (- 1) (roseRowH ros) (height + roseSpacing ros)))"


definition buildDiagLines :: "Rosette \<Rightarrow> real \<Rightarrow> real \<Rightarrow> dline list" where
  "buildDiagLines ros cx cy =
     diagLinesOf (numPetals ros) (circlePts (numPetals ros) cx cy (middleRadius ros))
       (circlePts (numPetals ros) cx cy (innerRadius ros))"

definition buildDiagExt :: "Rosette \<Rightarrow> real \<Rightarrow> real \<Rightarrow> dext list" where
  "buildDiagExt ros cx cy =
     diagExtsOf cx cy
       (outerLinesOf (numPetals ros) (connectEveryN ros)
          (circlePts (numPetals ros) cx cy (outerRadius ros)))
       (buildDiagLines ros cx cy)"






section \<open>Properties of lineIntersect\<close>

lemma lineIntersect_None:
  "lineIntersect ax1 ay1 ax2 ay2 bx1 by1 bx2 by2 = None
     \<longleftrightarrow> \<bar>det2 ax1 ay1 ax2 ay2 bx1 by1 bx2 by2\<bar> < 1 / 10 ^ 10"
  by (simp add: lineIntersect_def det2_def Let_def)

lemma lineIntersect_onLine:
  assumes "lineIntersect ax1 ay1 ax2 ay2 bx1 by1 bx2 by2 = Some p"
  shows "onLine p ax1 ay1 ax2 ay2" and "onLine p bx1 by1 bx2 by2"
proof -
  define denom where "denom = (ax2 - ax1) * (by2 - by1) - (ay2 - ay1) * (bx2 - bx1)"
  define t where "t = ((bx1 - ax1) * (by2 - by1) - (by1 - ay1) * (bx2 - bx1)) / denom"
  from assms have big: "\<not> \<bar>denom\<bar> < 1 / 10 ^ 10"
    and p: "p = (ax1 + t * (ax2 - ax1), ay1 + t * (ay2 - ay1))"
    by (auto simp: lineIntersect_def Let_def denom_def t_def split: if_splits)
  from big have nz: "denom \<noteq> 0" by auto
  show "onLine p ax1 ay1 ax2 ay2"
    by (simp add: onLine_def p)
  have td: "t * denom = (bx1 - ax1) * (by2 - by1) - (by1 - ay1) * (bx2 - bx1)"
    using nz by (simp add: t_def)
  have "(ax1 + t * (ax2 - ax1) - bx1) * (by2 - by1) - (ay1 + t * (ay2 - ay1) - by1) * (bx2 - bx1)
        = t * denom - ((bx1 - ax1) * (by2 - by1) - (by1 - ay1) * (bx2 - bx1))"
    by (simp add: denom_def algebra_simps)
  then show "onLine p bx1 by1 bx2 by2"
    using td by (simp add: onLine_def p)
qed

text \<open>Claim C4. \<^verbatim>\<open>lineIntersect\<close> returns \<^verbatim>\<open>null\<close> exactly when the absolute value of the
  determinant is below \<open>1e-10\<close>; a point it returns lies on both infinite lines, whether
  or not it lies between the end points; and two parallel segments (determinant zero)
  give \<^verbatim>\<open>null\<close>.\<close>

theorem lineIntersect_spec:
  "(lineIntersect ax1 ay1 ax2 ay2 bx1 by1 bx2 by2 = None
      \<longleftrightarrow> \<bar>det2 ax1 ay1 ax2 ay2 bx1 by1 bx2 by2\<bar> < 1 / 10 ^ 10)
   \<and> (\<forall>p. lineIntersect ax1 ay1 ax2 ay2 bx1 by1 bx2 by2 = Some p
          \<longrightarrow> onLine p ax1 ay1 ax2 ay2 \<and> onLine p bx1 by1 bx2 by2)
   \<and> (det2 ax1 ay1 ax2 ay2 bx1 by1 bx2 by2 = 0
          \<longrightarrow> lineIntersect ax1 ay1 ax2 ay2 bx1 by1 bx2 by2 = None)"
proof (intro conjI allI impI)
  show "lineIntersect ax1 ay1 ax2 ay2 bx1 by1 bx2 by2 = None
      \<longleftrightarrow> \<bar>det2 ax1 ay1 ax2 ay2 bx1 by1 bx2 by2\<bar> < 1 / 10 ^ 10"
    by (rule lineIntersect_None)
next
  fix p assume "lineIntersect ax1 ay1 ax2 ay2 bx1 by1 bx2 by2 = Some p"
  then show "onLine p ax1 ay1 ax2 ay2" "onLine p bx1 by1 bx2 by2"
    by (rule lineIntersect_onLine)+
next
  assume "det2 ax1 ay1 ax2 ay2 bx1 by1 bx2 by2 = 0"
  then show "lineIntersect ax1 ay1 ax2 ay2 bx1 by1 bx2 by2 = None"
    by (simp add: lineIntersect_None)
qed

text \<open>The lines through \<open>(0,0)\<close>, \<open>(1,0)\<close> and through \<open>(5,-1)\<close>, \<open>(5,1)\<close> meet in \<open>(5,0)\<close>,
  outside the first segment; the segments from \<open>(0,0)\<close> to \<open>(1,0)\<close> and from \<open>(0,1)\<close> to
  \<open>(1,1)\<close> are parallel.\<close>

theorem lineIntersect_spec_witness:
  "lineIntersect 0 0 1 0 5 (- 1) 5 1 = Some (5, 0)
   \<and> onLine (5, 0) 0 0 1 0 \<and> onLine (5, 0) 5 (- 1) 5 1
   \<and> det2 0 0 1 0 0 1 1 1 = 0
   \<and> lineIntersect 0 0 1 0 0 1 1 1 = None"
proof -
  have e: "lineIntersect 0 0 1 0 5 (- 1) 5 1 = Some (5, 0)"
    by (simp add: lineIntersect_def Let_def)
  have d: "det2 0 0 1 0 0 1 1 1 = 0"
    by (simp add: det2_def)
  from lineIntersect_spec [of 0 0 1 0 5 "- 1" 5 1] e
  have "onLine (5, 0) 0 0 1 0 \<and> onLine (5, 0) 5 (- 1) 5 1" by blast
  moreover from lineIntersect_spec [of 0 0 1 0 0 1 1 1] d
  have "lineIntersect 0 0 1 0 0 1 1 1 = None" by blast
  ultimately show ?thesis using e d by simp
qed

section \<open>Loops as folds\<close>

lemma forInt_foldM:
  assumes "0 < step"
  shows "forInt body step bound i st = foldM body (countsFrom i step bound) st"
proof (induction "nat (\<lceil>bound / step\<rceil> - i)" arbitrary: i st)
  case 0
  then have "\<lceil>bound / step\<rceil> \<le> i" by simp
  then have "\<not> of_int i * step < bound"
    using assms by (simp add: ceiling_le_iff pos_divide_le_eq)
  moreover have "countsFrom i step bound = []"
    using \<open>\<lceil>bound / step\<rceil> \<le> i\<close> by (simp add: countsFrom_def)
  ultimately show ?case
    by (subst forInt.simps) simp
next
  case (Suc n)
  then have lt: "i < \<lceil>bound / step\<rceil>" by linarith
  then have c: "of_int i * step < bound"
    using assms by (simp add: less_ceiling_iff pos_less_divide_eq)
  have l: "countsFrom i step bound = i # countsFrom (i + 1) step bound"
    using lt by (simp add: countsFrom_def upto_rec1)
  have "n = nat (\<lceil>bound / step\<rceil> - (i + 1))" using Suc.hyps(2) by linarith
  then have ih: "forInt body step bound (i + 1) = foldM body (countsFrom (i + 1) step bound)"
    using Suc.hyps(1) by (intro ext) simp
  show ?case
    using c by (subst forInt.simps) (simp add: l ih)
qed

lemma forStep_foldM:
  assumes "0 < step"
  shows "forStep body step bound v st = foldM body (stepsFrom v step bound) st"
proof (induction "nat \<lceil>(bound - v) / step\<rceil>" arbitrary: v st)
  case 0
  then have "(bound - v) / step \<le> 0" by (simp add: ceiling_le_iff)
  then have nb: "\<not> v < bound"
    using assms by (simp add: divide_le_0_iff)
  have "stepsFrom v step bound = []"
    using 0 by (simp add: stepsFrom_def)
  then show ?case
    using nb by (subst forStep.simps) simp
next
  case (Suc n)
  then have pos: "0 < \<lceil>(bound - v) / step\<rceil>" by linarith
  then have "0 < (bound - v) / step" by (simp add: less_ceiling_iff)
  then have c: "v < bound"
    using assms by (simp add: zero_less_divide_iff)
  have e: "(bound - (v + step)) / step = (bound - v) / step - 1"
    using assms by (simp add: field_simps)
  have n: "n = nat \<lceil>(bound - (v + step)) / step\<rceil>"
    using Suc.hyps(2) by (simp add: e)
  have ih: "forStep body step bound (v + step) = foldM body (stepsFrom (v + step) step bound)"
    using Suc.hyps(1) [OF n] by (intro ext) simp
  have "stepsFrom v step bound = map (\<lambda>k. v + real k * step) [0..<Suc n]"
    using Suc.hyps(2) by (simp add: stepsFrom_def)
  also have "\<dots> = v # map (\<lambda>k. v + real (Suc k) * step) [0..<n]"
    by (simp add: upt_conv_Cons map_Suc_upt [symmetric] del: upt_Suc)
  also have "map (\<lambda>k. v + real (Suc k) * step) [0..<n] = stepsFrom (v + step) step bound"
    unfolding stepsFrom_def n [symmetric] by (simp add: algebra_simps)
  finally have l: "stepsFrom v step bound = v # stepsFrom (v + step) step bound" .
  show ?case
    using c by (subst forStep.simps) (simp add: l ih)
qed

lemma foldM_Some:
  "foldM (\<lambda>v st. Some (f v st)) vs st = Some (fold f vs st)"
  by (induction vs arbitrary: st) simp_all

lemma foldM_cong:
  "(\<And>v st. v \<in> set vs \<Longrightarrow> f v st = g v st) \<Longrightarrow> foldM f vs st = foldM g vs st"
  by (induction vs arbitrary: st) (simp_all cong: Option.bind_cong)

section \<open>Properties of Truchet\<close>

lemma foldM_append:
  "foldM f (us @ vs) st = Option.bind (foldM f us st) (foldM f vs)"
  by (induction us arbitrary: st) (simp_all split: Option.bind_split)

lemma foldM_nested:
  "foldM (\<lambda>v. foldM (\<lambda>u. body u v) us) vs st
     = foldM (\<lambda>(u, v). body u v) (concat (map (\<lambda>v. map (\<lambda>u. (u, v)) us) vs)) st"
proof (induction vs arbitrary: st)
  case Nil
  show ?case by simp
next
  case (Cons v vs)
  have "foldM (\<lambda>p. case p of (u, v) \<Rightarrow> body u v) (map (\<lambda>u. (u, v)) us) st = foldM (\<lambda>u. body u v) us st"
    for st
    by (induction us arbitrary: st) (simp_all split: Option.bind_split)
  then show ?case
    by (simp add: foldM_append Cons.IH cong: Option.bind_cong)
qed

lemma foldM_total:
  "(\<And>v st. v \<in> set vs \<Longrightarrow> f v st \<noteq> None) \<Longrightarrow> foldM f vs st \<noteq> None"
proof (induction vs arbitrary: st)
  case Nil
  show ?case by simp
next
  case (Cons v vs)
  obtain sa where "f v st = Some sa" using Cons.prems [of v st] by auto
  moreover have "foldM f vs sa \<noteq> None" using Cons.IH [of sa] Cons.prems by auto
  ultimately show ?case by simp
qed

lemma truchetGrid_foldM:
  assumes "0 < baseSize t"
  shows "truchetGrid t width height seed
           = foldM (\<lambda>(x, y). processCell rand t x y (baseSize t)) (truchetCells t width height)
               (word_of_int seed, [])"
proof -
  have "truchetGrid t width height seed
          = foldM (\<lambda>y. foldM (\<lambda>x. processCell rand t x y (baseSize t))
                            (stepsFrom (- baseSize t) (baseSize t) (width + baseSize t)))
              (stepsFrom (- baseSize t) (baseSize t) (height + baseSize t)) (word_of_int seed, [])"
    unfolding truchetGrid_def Let_def
    by (simp add: forStep_foldM [OF assms] cong: foldM_cong)
  then show ?thesis
    by (simp add: foldM_nested truchetCells_def)
qed

lemma processCell_small:
  "\<not> minSize t < sz \<Longrightarrow> processCell rnd t x y sz st = Some (terminalCell rnd x y sz st)"
  by (subst processCell.simps) simp

lemma processCell_keep:
  "minSize t < sz \<Longrightarrow> \<not> fst (rnd (fst st)) < splitProb t \<Longrightarrow>
     processCell rnd t x y sz st = Some (terminalCell rnd x y sz (snd (rnd (fst st)), snd st))"
  by (subst processCell.simps) simp

lemma processCell_split:
  "minSize t < sz \<Longrightarrow> fst (rnd (fst st)) < splitProb t \<Longrightarrow>
     processCell rnd t x y sz st
       = foldM (\<lambda>(cx, cy). processCell rnd t cx cy (sz / 2))
           [(x, y), (x + sz / 2, y), (x, y + sz / 2), (x + sz / 2, y + sz / 2)]
           (snd (rnd (fst st)), snd st)"
  by (subst processCell.simps) (simp cong: Option.bind_cong)

lemma length_terminalCell:
  "length (snd (terminalCell rnd x y sz st)) = length (snd st) + 2"
  by (simp add: terminalCell_def Let_def)

lemma length_fold_terminalCell:
  "length (snd (fold (\<lambda>(x, y). terminalCell rnd x y sz) cells st))
     = length (snd st) + 2 * length cells"
  by (induction cells arbitrary: st) (simp_all add: length_terminalCell split_beta)

lemma all_terminal:
  assumes "0 < baseSize t" and "baseSize t \<le> minSize t"
  shows "truchetGrid t width height seed
           = Some (fold (\<lambda>(x, y). terminalCell rand x y (baseSize t)) (truchetCells t width height)
                     (word_of_int seed, []))"
proof -
  have "(\<lambda>(x, y). processCell rand t x y (baseSize t))
          = (\<lambda>p st. Some ((\<lambda>(x, y). terminalCell rand x y (baseSize t)) p st))"
    using assms(2) by (auto simp: processCell_small fun_eq_iff)
  then show ?thesis
    by (simp add: truchetGrid_foldM [OF assms(1)] foldM_Some)
qed

lemma all_terminal_count:
  assumes "0 < baseSize t" and "baseSize t \<le> minSize t"
  shows "map_option length (generate t width height seed)
           = Some (2 * length (truchetCells t width height))"
  by (simp add: generate_def all_terminal [OF assms] length_fold_terminalCell)

lemma length_grid:
  "length (concat (map (\<lambda>v. map (\<lambda>u. g u v) us) vs)) = length us * length vs"
  by (induction vs) simp_all

lemma length_stepsFrom:
  "length (stepsFrom v step bound) = nat \<lceil>(bound - v) / step\<rceil>"
  by (simp add: stepsFrom_def)

lemma length_truchetCells:
  "length (truchetCells t width height)
     = nat \<lceil>(width + 2 * baseSize t) / baseSize t\<rceil> * nat \<lceil>(height + 2 * baseSize t) / baseSize t\<rceil>"
  unfolding truchetCells_def length_grid length_stepsFrom by (simp add: add.commute)

lemma scenario_cells:
  "length (truchetCells \<lparr>baseSize = 60, minSize = 60, splitProb = 1\<rparr> 60 60) = 9"
  by (simp add: length_truchetCells)

lemma scenario_count:
  "map_option length (generate \<lparr>baseSize = 60, minSize = 60, splitProb = 1\<rparr> 60 60 1) = Some 18"
  by (simp add: all_terminal_count scenario_cells)


text \<open>Claim C2, amended. When \<open>minSize \<ge> baseSize\<close> (and \<open>baseSize > 0\<close>, so that the loops
  end), \<^verbatim>\<open>generate\<close> returns, every top-level cell of the grid is treated as terminal and
  gives two arcs. The grid has one cell of overscan on each side: for
  \<open>baseSize = minSize = 60\<close>, \<open>splitProb = 1\<close>, a viewport of 60 by 60 and seed 1 it has
  3 rows of 3 cells, and the list returned has 18 arc commands.\<close>

theorem minSize_ge_baseSize_all_terminal:
  "(0 < baseSize t \<and> baseSize t \<le> minSize t \<longrightarrow>
      truchetGrid t width height seed
        = Some (fold (\<lambda>(x, y). terminalCell rand x y (baseSize t)) (truchetCells t width height)
                  (word_of_int seed, []))
      \<and> map_option length (generate t width height seed)
          = Some (2 * length (truchetCells t width height)))
   \<and> length (truchetCells \<lparr>baseSize = 60, minSize = 60, splitProb = 1\<rparr> 60 60) = 9
   \<and> map_option length (generate \<lparr>baseSize = 60, minSize = 60, splitProb = 1\<rparr> 60 60 1) = Some 18"
  using all_terminal [of t width height seed] all_terminal_count [of t width height seed]
    scenario_cells scenario_count
  by blast

theorem minSize_ge_baseSize_all_terminal_witness:
  "(0::real) < 60 \<and> (60::real) \<le> 100
   \<and> length (truchetCells \<lparr>baseSize = 60, minSize = 100, splitProb = 1 / 2\<rparr> 100 50) = 12
   \<and> map_option length (generate \<lparr>baseSize = 60, minSize = 100, splitProb = 1 / 2\<rparr> 100 50 7)
       = Some 24"
proof -
  have n: "length (truchetCells \<lparr>baseSize = 60, minSize = 100, splitProb = 1 / 2\<rparr> 100 50) = 12"
    by (simp add: length_truchetCells)
  show ?thesis
    using minSize_ge_baseSize_all_terminal
      [of "\<lparr>baseSize = 60, minSize = 100, splitProb = 1 / 2\<rparr>" 100 50 7]
    by (simp add: n)
qed

text \<open>The scenario of the claim gives 18 commands, not 2.\<close>

theorem scenario_two_arcs_counterexample:
  "map_option length (generate \<lparr>baseSize = 60, minSize = 60, splitProb = 1\<rparr> 60 60 1) = Some 18
   \<and> map_option length (generate \<lparr>baseSize = 60, minSize = 60, splitProb = 1\<rparr> 60 60 1) \<noteq> Some 2"
  by (simp add: scenario_count)

subsection \<open>Termination\<close>

lemma processCell_total_aux:
  "sz \<le> minSize t * 2 ^ k \<Longrightarrow> processCell rnd t x y sz st \<noteq> None"
proof (induction k arbitrary: x y sz st)
  case 0
  then show ?case by (simp add: processCell_small)
next
  case (Suc k)
  have half: "sz / 2 \<le> minSize t * 2 ^ k" using Suc.prems by simp
  show ?case
  proof (cases "minSize t < sz \<and> fst (rnd (fst st)) < splitProb t")
    case True
    have "foldM (\<lambda>(cx, cy). processCell rnd t cx cy (sz / 2))
             [(x, y), (x + sz / 2, y), (x, y + sz / 2), (x + sz / 2, y + sz / 2)]
             (snd (rnd (fst st)), snd st) \<noteq> None"
      by (rule foldM_total) (simp add: split_beta Suc.IH [OF half])
    then show ?thesis using True by (simp add: processCell_split)
  next
    case False
    then show ?thesis
      by (cases "minSize t < sz") (simp_all add: processCell_small processCell_keep)
  qed
qed

lemma depth_exists:
  assumes "0 < (m::real)"
  shows "\<exists>k. sz \<le> m * 2 ^ k"
proof -
  obtain k where "sz / m < 2 ^ k"
    using real_arch_pow [of 2 "sz / m"] by auto
  then have "sz < m * 2 ^ k"
    using assms by (simp add: pos_divide_less_eq mult.commute)
  then show ?thesis by (auto intro: less_imp_le)
qed

lemma processCell_total:
  assumes "0 < minSize t"
  shows "processCell rnd t x y sz st \<noteq> None"
  using depth_exists [OF assms, of sz] processCell_total_aux by blast

lemma truchetGrid_total:
  assumes "0 < baseSize t" and "0 < minSize t"
  shows "\<exists>st. truchetGrid t width height seed = Some st"
proof -
  have "truchetGrid t width height seed \<noteq> None"
    unfolding truchetGrid_foldM [OF assms(1)]
    by (rule foldM_total) (simp add: split_beta processCell_total [OF assms(2)])
  then show ?thesis by auto
qed


subsection \<open>The seed 0\<close>













lemma xorshift_1: "xorshift 1 = 270369"
  by (simp add: xorshift_def Let_def)




subsection \<open>Counting the draws\<close>

lemma processCell_split_bind:
  "minSize t < sz \<Longrightarrow> fst (rnd (fst st)) < splitProb t \<Longrightarrow>
     processCell rnd t x y sz st
       = Option.bind (processCell rnd t x y (sz / 2) (snd (rnd (fst st)), snd st))
           (\<lambda>sa. Option.bind (processCell rnd t (x + sz / 2) y (sz / 2) sa)
           (\<lambda>sb. Option.bind (processCell rnd t x (y + sz / 2) (sz / 2) sb)
           (\<lambda>sc. processCell rnd t (x + sz / 2) (y + sz / 2) (sz / 2) sc)))"
  by (subst processCell.simps) simp

lemma counting_erase_aux:
  "sz \<le> minSize t * 2 ^ k \<Longrightarrow>
     map_option eraseCount (processCell (counting rnd) t x y sz st)
       = processCell rnd t x y sz (eraseCount st)"
proof (induction k arbitrary: x y sz st)
  case 0
  then show ?case
    by (simp add: processCell_small eraseCount_def terminalCell_def counting_def Let_def)
next
  case (Suc k)
  have half: "sz / 2 \<le> minSize t * 2 ^ k" using Suc.prems by simp
  have step: "map_option eraseCount (Option.bind (processCell (counting rnd) t u v (sz / 2) sa) f)
                = Option.bind (processCell rnd t u v (sz / 2) (eraseCount sa)) g"
    if "\<And>sb. map_option eraseCount (f sb) = g (eraseCount sb)"
    for u v sa and f :: "('a \<times> nat) \<times> arc list \<Rightarrow> (('a \<times> nat) \<times> arc list) option" and g
  proof -
    have r: "processCell rnd t u v (sz / 2) (eraseCount sa)
               = map_option eraseCount (processCell (counting rnd) t u v (sz / 2) sa)"
      by (rule Suc.IH [OF half, symmetric])
    show ?thesis
      unfolding r
      by (cases "processCell (counting rnd) t u v (sz / 2) sa") (simp_all add: that)
  qed
  show ?case
  proof (cases "minSize t < sz")
    case False
    then show ?thesis
      by (simp add: processCell_small eraseCount_def terminalCell_def counting_def Let_def)
  next
    case big: True
    show ?thesis
    proof (cases "fst (rnd (fst (fst st))) < splitProb t")
      case False
      then show ?thesis
        using big
        by (simp add: processCell_keep eraseCount_def terminalCell_def counting_def Let_def)
    next
      case True
      let ?C = "\<lambda>s0. Option.bind (processCell (counting rnd) t x y (sz / 2) s0)
                 (\<lambda>sa. Option.bind (processCell (counting rnd) t (x + sz / 2) y (sz / 2) sa)
                 (\<lambda>sb. Option.bind (processCell (counting rnd) t x (y + sz / 2) (sz / 2) sb)
                 (\<lambda>sc. processCell (counting rnd) t (x + sz / 2) (y + sz / 2) (sz / 2) sc)))"
      let ?P = "\<lambda>s0. Option.bind (processCell rnd t x y (sz / 2) s0)
                 (\<lambda>sa. Option.bind (processCell rnd t (x + sz / 2) y (sz / 2) sa)
                 (\<lambda>sb. Option.bind (processCell rnd t x (y + sz / 2) (sz / 2) sb)
                 (\<lambda>sc. processCell rnd t (x + sz / 2) (y + sz / 2) (sz / 2) sc)))"
      have e: "eraseCount (snd (counting rnd (fst st)), snd st)
                 = (snd (rnd (fst (eraseCount st))), snd (eraseCount st))"
        by (simp add: eraseCount_def counting_def)
      have m: "map_option eraseCount (?C s0) = ?P (eraseCount s0)" for s0
        by (rule step)+ (rule Suc.IH [OF half])
      have l: "processCell (counting rnd) t x y sz st = ?C (snd (counting rnd (fst st)), snd st)"
        using big True by (intro processCell_split_bind) (simp_all add: counting_def)
      have r: "processCell rnd t x y sz (eraseCount st)
                 = ?P (snd (rnd (fst (eraseCount st))), snd (eraseCount st))"
        using big True by (intro processCell_split_bind) (simp_all add: eraseCount_def)
      show ?thesis
        unfolding l r e [symmetric] by (rule m)
    qed
  qed
qed

lemma counting_erase:
  assumes "0 < minSize t"
  shows "map_option eraseCount (processCell (counting rnd) t x y sz ((g, n), cmds))
           = processCell rnd t x y sz (g, cmds)"
  using depth_exists [OF assms, of sz] counting_erase_aux [of sz t _ rnd x y "((g, n), cmds)"]
  by (auto simp: eraseCount_def)

lemma drawsOf_terminalCell:
  "drawsOf (terminalCell (counting rnd) x y sz ((g, n), cmds)) = n + 1"
  by (simp add: drawsOf_def terminalCell_def counting_def Let_def)

lemma generate_seed_word:
  "(word_of_int seed :: 32 word) = word_of_int seed' \<Longrightarrow>
     generate t width height seed = generate t width height seed'"
  by (simp add: generate_def truchetGrid_def)


lemma xorshift_42: "xorshift 42 = 11355432"
  by (simp add: xorshift_def Let_def)

text \<open>Claim C1, amended. Run with a generator that counts its draws, a cell of
  \<^verbatim>\<open>processCell\<close> does one of three things. If \<open>size \<le> minSize\<close>, the guard
  \<^verbatim>\<open>size > this.minSize && rand() < this.splitProb\<close> draws nothing: the cell draws once, for
  its type, and emits its two arcs. If \<open>size > minSize\<close> it draws once for the split; when
  the number drawn is not below \<open>splitProb\<close> it draws a second time, for its type, and
  emits its two arcs; when it is below, it processes its four children in the order
  top-left, top-right, bottom-left, bottom-right, from the state after that one draw.
  The counter changes nothing else (for \<open>minSize > 0\<close>, where every cell returns), and
  \<^verbatim>\<open>generate\<close> depends on the seed only through \<^verbatim>\<open>seed | 0\<close>.\<close>

theorem processCell_draws:
  "(\<not> minSize t < sz \<longrightarrow>
      processCell (counting rnd) t x y sz ((g, n), cmds)
        = Some (terminalCell (counting rnd) x y sz ((g, n), cmds))
      \<and> drawsOf (terminalCell (counting rnd) x y sz ((g, n), cmds)) = n + 1)
   \<and> (minSize t < sz \<and> \<not> fst (rnd g) < splitProb t \<longrightarrow>
      processCell (counting rnd) t x y sz ((g, n), cmds)
        = Some (terminalCell (counting rnd) x y sz ((snd (rnd g), n + 1), cmds))
      \<and> drawsOf (terminalCell (counting rnd) x y sz ((snd (rnd g), n + 1), cmds)) = n + 2)
   \<and> (minSize t < sz \<and> fst (rnd g) < splitProb t \<longrightarrow>
      processCell (counting rnd) t x y sz ((g, n), cmds)
        = foldM (\<lambda>(cx, cy). processCell (counting rnd) t cx cy (sz / 2))
            [(x, y), (x + sz / 2, y), (x, y + sz / 2), (x + sz / 2, y + sz / 2)]
            ((snd (rnd g), n + 1), cmds))
   \<and> length (snd (terminalCell (counting rnd) x y sz ((g, n), cmds))) = length cmds + 2
   \<and> (0 < minSize t \<longrightarrow>
        map_option eraseCount (processCell (counting rnd) t x y sz ((g, n), cmds))
          = processCell rnd t x y sz (g, cmds))
   \<and> ((word_of_int seed :: 32 word) = word_of_int seed' \<longrightarrow>
        generate t width height seed = generate t width height seed')"
proof (intro conjI impI)
  assume "\<not> minSize t < sz"
  then show "processCell (counting rnd) t x y sz ((g, n), cmds)
        = Some (terminalCell (counting rnd) x y sz ((g, n), cmds))"
    by (rule processCell_small)
next
  show "drawsOf (terminalCell (counting rnd) x y sz ((g, n), cmds)) = n + 1"
    by (rule drawsOf_terminalCell)
next
  assume "minSize t < sz \<and> \<not> fst (rnd g) < splitProb t"
  then show "processCell (counting rnd) t x y sz ((g, n), cmds)
        = Some (terminalCell (counting rnd) x y sz ((snd (rnd g), n + 1), cmds))"
    by (simp add: processCell_keep counting_def)
next
  show "drawsOf (terminalCell (counting rnd) x y sz ((snd (rnd g), n + 1), cmds)) = n + 2"
    by (simp add: drawsOf_terminalCell)
next
  assume "minSize t < sz \<and> fst (rnd g) < splitProb t"
  then show "processCell (counting rnd) t x y sz ((g, n), cmds)
        = foldM (\<lambda>(cx, cy). processCell (counting rnd) t cx cy (sz / 2))
            [(x, y), (x + sz / 2, y), (x, y + sz / 2), (x + sz / 2, y + sz / 2)]
            ((snd (rnd g), n + 1), cmds)"
    by (simp add: processCell_split counting_def)
next
  show "length (snd (terminalCell (counting rnd) x y sz ((g, n), cmds))) = length cmds + 2"
    by (simp add: length_terminalCell)
next
  assume "0 < minSize t"
  then show "map_option eraseCount (processCell (counting rnd) t x y sz ((g, n), cmds))
          = processCell rnd t x y sz (g, cmds)"
    by (rule counting_erase)
next
  assume "(word_of_int seed :: 32 word) = word_of_int seed'"
  then show "generate t width height seed = generate t width height seed'"
    by (rule generate_seed_word)
qed

text \<open>Three cells of 120, 120 and 18 pixels with \<open>minSize = 18\<close>: the first splits
  (\<open>splitProb = 0.6\<close>, state 42: the number drawn is 11355432 / 4294967295), the second
  does not (\<open>splitProb = 0\<close>), the third is too small to split.\<close>

theorem processCell_draws_witness:
  "minSize \<lparr>baseSize = 120, minSize = 18, splitProb = 6 / 10\<rparr> < 120
   \<and> fst (rand 42) < splitProb \<lparr>baseSize = 120, minSize = 18, splitProb = 6 / 10\<rparr>
   \<and> processCell (counting rand) \<lparr>baseSize = 120, minSize = 18, splitProb = 6 / 10\<rparr> 0 0 120
        ((42, 0), [])
      = foldM (\<lambda>(cx, cy). processCell (counting rand)
                 \<lparr>baseSize = 120, minSize = 18, splitProb = 6 / 10\<rparr> cx cy 60)
          [(0, 0), (60, 0), (0, 60), (60, 60)] ((11355432, 1), [])
   \<and> \<not> fst (rand 42) < splitProb \<lparr>baseSize = 120, minSize = 18, splitProb = 0\<rparr>
   \<and> map_option drawsOf
        (processCell (counting rand) \<lparr>baseSize = 120, minSize = 18, splitProb = 0\<rparr> 0 0 120
           ((42, 0), [])) = Some 2
   \<and> \<not> minSize \<lparr>baseSize = 120, minSize = 18, splitProb = 6 / 10\<rparr> < 18
   \<and> map_option drawsOf
        (processCell (counting rand) \<lparr>baseSize = 120, minSize = 18, splitProb = 6 / 10\<rparr> 0 0 18
           ((42, 0), [])) = Some 1
   \<and> 0 < minSize \<lparr>baseSize = 120, minSize = 18, splitProb = 6 / 10\<rparr>
   \<and> map_option eraseCount
        (processCell (counting rand) \<lparr>baseSize = 120, minSize = 18, splitProb = 6 / 10\<rparr> 0 0 120
           ((42, 0), []))
      = processCell rand \<lparr>baseSize = 120, minSize = 18, splitProb = 6 / 10\<rparr> 0 0 120 (42, [])
   \<and> (word_of_int 1 :: 32 word) = word_of_int 4294967297
   \<and> generate \<lparr>baseSize = 120, minSize = 18, splitProb = 6 / 10\<rparr> 300 200 1
      = generate \<lparr>baseSize = 120, minSize = 18, splitProb = 6 / 10\<rparr> 300 200 4294967297"
proof -
  let ?t = "\<lparr>baseSize = 120, minSize = 18, splitProb = 6 / 10\<rparr>"
  let ?u = "\<lparr>baseSize = 120, minSize = 18, splitProb = 0\<rparr>"
  have r: "rand 42 = (11355432 / 4294967295, 11355432)"
    by (simp add: rand_def xorshift_42)
  have w: "(word_of_int 1 :: 32 word) = word_of_int 4294967297"
    by simp
  have a: "processCell (counting rand) ?t 0 0 120 ((42, 0), [])
      = foldM (\<lambda>(cx, cy). processCell (counting rand) ?t cx cy 60)
          [(0, 0), (60, 0), (0, 60), (60, 60)] ((11355432, 1), [])"
    using processCell_draws [of ?t 120 rand 0 0 42 0 "[]"] by (simp add: r)
  have b: "map_option drawsOf (processCell (counting rand) ?u 0 0 120 ((42, 0), [])) = Some 2"
    using processCell_draws [of ?u 120 rand 0 0 42 0 "[]"] by (simp add: r)
  have c: "map_option drawsOf (processCell (counting rand) ?t 0 0 18 ((42, 0), [])) = Some 1"
    using processCell_draws [of ?t 18 rand 0 0 42 0 "[]"] by simp
  have d: "map_option eraseCount (processCell (counting rand) ?t 0 0 120 ((42, 0), []))
      = processCell rand ?t 0 0 120 (42, [])"
    using processCell_draws [of ?t 120 rand 0 0 42 0 "[]"] by simp
  have e: "generate ?t 300 200 1 = generate ?t 300 200 4294967297"
    using processCell_draws [of ?t 120 rand 0 0 42 0 "[]" 1 4294967297 300 200] w by blast
  show ?thesis
    using a b c d e w by (simp add: r)
qed

text \<open>A cell larger than \<open>minSize\<close> that does not split has drawn twice before it emits its
  arcs, and a cell that is not larger than \<open>minSize\<close> once: its decision not to split drew
  nothing.\<close>

theorem one_draw_per_cell_counterexample:
  "map_option (\<lambda>st. (drawsOf st, length (snd st)))
     (processCell (counting rand) \<lparr>baseSize = 120, minSize = 18, splitProb = 0\<rparr> 0 0 120
        ((1, 0), [])) = Some (2, 2)
   \<and> map_option (\<lambda>st. (drawsOf st, length (snd st)))
     (processCell (counting rand) \<lparr>baseSize = 120, minSize = 18, splitProb = 0\<rparr> 0 0 18
        ((1, 0), [])) = Some (1, 2)"
proof -
  let ?u = "\<lparr>baseSize = 120, minSize = 18, splitProb = 0\<rparr>"
  have k: "\<not> fst (counting rand (fst ((1, 0), []))) < splitProb ?u"
    by (simp add: counting_def rand_def Let_def not_less xorshift_1)
  have "processCell (counting rand) ?u 0 0 120 ((1, 0), [])
          = Some (terminalCell (counting rand) 0 0 120 (snd (counting rand (1, 0)), []))"
    using k by (subst processCell_keep) simp_all
  moreover have "snd (counting rand (1, 0)) = (xorshift 1, 1)"
    by (simp add: counting_def rand_def Let_def)
  moreover have "processCell (counting rand) ?u 0 0 18 ((1, 0), [])
          = Some (terminalCell (counting rand) 0 0 18 ((1, 0), []))"
    by (subst processCell_small) simp_all
  ultimately show ?thesis
    by (simp add: drawsOf_terminalCell length_terminalCell)
qed

section \<open>Properties of HatTiling\<close>

lemma hatGrid_fold:
  assumes "0 < hat_s hat"
  shows "hatGrid hat width height
           = Some (fold (\<lambda>row. fold (hatCell hat (hatColStep hat) (hatRowStep hat) row)
                                   (hatCols hat width))
                     (hatRows hat height) [])"
proof -
  have c: "0 < hatColStep hat" and r: "0 < hatRowStep hat"
    using assms by (simp_all add: hatColStep_def hatRowStep_def)
  have inner: "forInt (\<lambda>col tiles. Some (hatCell hat (hatColStep hat) (hatRowStep hat) row col tiles))
                 (hatColStep hat) (width + hatPad hat) (- 2)
               = (\<lambda>tiles. Some (fold (hatCell hat (hatColStep hat) (hatRowStep hat) row)
                                    (hatCols hat width) tiles))" for row
    by (intro ext) (simp add: forInt_foldM [OF c] foldM_Some hatCols_def)
  have "hatGrid hat width height
          = forInt (\<lambda>row. forInt (\<lambda>col tiles. Some (hatCell hat (hatColStep hat) (hatRowStep hat) row col tiles))
                 (hatColStep hat) (width + hatPad hat) (- 2))
              (hatRowStep hat) (height + hatPad hat) (- 2) []"
    by (simp add: hatGrid_def Let_def hatColStep_def hatRowStep_def hatPad_def)
  then show ?thesis
    by (simp add: inner forInt_foldM [OF r] foldM_Some hatRows_def)
qed

















lemma rotPt_inj:
  assumes "rotPt x y a = rotPt x' y' a"
  shows "x = x' \<and> y = y'"
proof -
  let ?c = "cos a" and ?s = "sin a"
  from assms have e1: "x * ?c - y * ?s = x' * ?c - y' * ?s"
    and e2: "x * ?s + y * ?c = x' * ?s + y' * ?c"
    by (simp_all add: rotPt_def Let_def)
  have u: "?c * ?c + ?s * ?s = 1"
    using sin_cos_squared_add3 [of a] by simp
  have a1: "(x - x') * ?c = (y - y') * ?s" using e1 by (simp add: algebra_simps)
  have a2: "(x - x') * ?s = - ((y - y') * ?c)" using e2 by (simp add: algebra_simps)
  have "(x - x') * (?c * ?c + ?s * ?s) = ((x - x') * ?c) * ?c + ((x - x') * ?s) * ?s"
    by (simp only: distrib_left mult.assoc)
  also have "\<dots> = 0" unfolding a1 a2 by simp
  finally have x: "x = x'" by (simp add: u)
  have "(y - y') * (?c * ?c + ?s * ?s) = ((y - y') * ?s) * ?s + ((y - y') * ?c) * ?c"
    by (simp only: distrib_left mult.assoc add.commute)
  also have "\<dots> = 0" unfolding a1 [symmetric] using a2 by (simp add: x)
  finally have "y = y'" by (simp add: u)
  with x show ?thesis by simp
qed

lemma kiteToPixel_inj:
  assumes "hat_s hat \<noteq> 0" and "kiteToPixel hat u v f = kiteToPixel hat u' v' f"
  shows "u = u' \<and> v = v'"
proof -
  from assms(2) have "v * (hat_s hat * sqrt 3 / 2) = v' * (hat_s hat * sqrt 3 / 2)"
    and p: "u * hat_s hat + v * (hat_s hat / 2) = u' * hat_s hat + v' * (hat_s hat / 2)"
    by (auto simp: kiteToPixel_def Let_def split: if_splits)
  then have v: "v = v'" using assms(1) by simp
  with p have "u * hat_s hat = u' * hat_s hat" by simp
  then have "u = u'" using assms(1) by simp
  with v show ?thesis by simp
qed

lemma distinct_kiteVerts: "distinct (butlast kiteVerts)"
  by (simp add: kiteVerts_def)






section \<open>The order of the lists returned\<close>

lemma generateTiles_sorted:
  assumes "0 < hat_s hat"
  shows "\<exists>ts. generateTiles hat width height = Some ts
           \<and> sorted (map (tileDist (width / 2) (height / 2)) ts)"
  by (simp add: generateTiles_def hatGrid_fold [OF assms])

lemma generate_sorted:
  assumes "0 < baseSize t" and "0 < minSize t"
  shows "\<exists>cs. generate t width height seed = Some cs
           \<and> sorted (map (arcDist (width / 2) (height / 2)) cs)"
proof -
  obtain st where "truchetGrid t width height seed = Some st"
    using truchetGrid_total [OF assms] by blast
  then show ?thesis
    by (simp add: generate_def)
qed

text \<open>Claim C7. For a valid configuration (\<open>edgeLen > 0\<close>; \<open>baseSize > 0\<close> and \<open>minSize > 0\<close>)
  each generator returns, and its list is in ascending order of the Euclidean distance
  from the centre \<open>(width / 2, height / 2)\<close> of the viewport: of the centre \<open>(cx, cy)\<close> of
  a tile, and of the midpoint \<open>(midX, midY)\<close> of an arc.\<close>

theorem lists_sorted_by_distance:
  "(0 < hat_s hat \<longrightarrow>
      (\<exists>ts. generateTiles hat width height = Some ts
         \<and> sorted (map (tileDist (width / 2) (height / 2)) ts)))
   \<and> (0 < baseSize t \<and> 0 < minSize t \<longrightarrow>
      (\<exists>cs. generate t width height seed = Some cs
         \<and> sorted (map (arcDist (width / 2) (height / 2)) cs)))
   \<and> tileDist mx my (Tile poly cx cy) = sqrt ((cx - mx)\<^sup>2 + (cy - my)\<^sup>2)
   \<and> arcDist mx my (Arc ax ay r sa ea ccw midX midY) = sqrt ((midX - mx)\<^sup>2 + (midY - my)\<^sup>2)"
  using generateTiles_sorted [of hat width height] generate_sorted [of t width height seed]
  by (simp add: tileDist_def arcDist_def hypot_def power2_eq_square)

theorem lists_sorted_by_distance_witness:
  "(0::real) < 28
   \<and> (\<exists>ts. generateTiles \<lparr>hat_s = 28, hat_orientSeed = 0\<rparr> 800 600 = Some ts
         \<and> sorted (map (tileDist 400 300) ts))
   \<and> (0::real) < 120 \<and> (0::real) < 18
   \<and> (\<exists>cs. generate \<lparr>baseSize = 120, minSize = 18, splitProb = 6 / 10\<rparr> 800 600 42 = Some cs
         \<and> sorted (map (arcDist 400 300) cs))"
  using lists_sorted_by_distance [of "\<lparr>hat_s = 28, hat_orientSeed = 0\<rparr>" 800 600
      "\<lparr>baseSize = 120, minSize = 18, splitProb = 6 / 10\<rparr>" 42]
  by simp

section \<open>Determinism\<close>









section \<open>The spawn schedule of a scene\<close>
















section \<open>Properties of Rosette\<close>

lemma length_build: "length (build ros cx cy) = 7"
  by (simp add: build_def Let_def)

lemma mergePhases_aux:
  "k + length phs \<le> length m \<Longrightarrow>
     length (fold (\<lambda>(ph, pi) m. if pi < mx then m[pi := m ! pi @ ph] else m)
               (zip phs [k..<k + length phs]) m) = length m
     \<and> (\<forall>i < length m.
           fold (\<lambda>(ph, pi) m. if pi < mx then m[pi := m ! pi @ ph] else m)
             (zip phs [k..<k + length phs]) m ! i
           = (if k \<le> i \<and> i < k + length phs \<and> i < mx then m ! i @ phs ! (i - k) else m ! i))"
proof (induction phs arbitrary: k m)
  case Nil
  show ?case by auto
next
  case (Cons ph phs)
  let ?f = "\<lambda>(ph, pi) m. if pi < mx then m[pi := m ! pi @ ph] else m"
  let ?m = "if k < mx then m[k := m ! k @ ph] else m"
  have z: "zip (ph # phs) [k..<k + length (ph # phs)] = (ph, k) # zip phs [Suc k..<Suc k + length phs]"
  proof -
    have "k < k + Suc (length phs)" by simp
    from upt_conv_Cons [OF this]
    have "[k..<k + length (ph # phs)] = k # [Suc k..<Suc k + length phs]"
      by (simp del: upt_Suc)
    then show ?thesis by (simp del: upt_Suc)
  qed
  have len: "length ?m = length m" by simp
  have sk: "Suc k + length phs \<le> length ?m" using Cons.prems by simp
  note ih = Cons.IH [OF sk]
  have e: "fold ?f (zip (ph # phs) [k..<k + length (ph # phs)]) m
             = fold ?f (zip phs [Suc k..<Suc k + length phs]) ?m"
    unfolding z by simp
  show ?case
    unfolding e
  proof (intro conjI allI impI)
    show "length (fold ?f (zip phs [Suc k..<Suc k + length phs]) ?m) = length m"
      using ih len by simp
  next
    fix i assume i: "i < length m"
    then have "fold ?f (zip phs [Suc k..<Suc k + length phs]) ?m ! i
                 = (if Suc k \<le> i \<and> i < Suc k + length phs \<and> i < mx
                    then ?m ! i @ phs ! (i - Suc k) else ?m ! i)"
      using ih len by simp
    also have "\<dots> = (if k \<le> i \<and> i < k + length (ph # phs) \<and> i < mx
                       then m ! i @ (ph # phs) ! (i - k) else m ! i)"
      using i Cons.prems by (cases "i = k") (auto simp: nth_Cons' Suc_diff_le)
    finally show "fold ?f (zip phs [Suc k..<Suc k + length phs]) ?m ! i
                 = (if k \<le> i \<and> i < k + length (ph # phs) \<and> i < mx
                       then m ! i @ (ph # phs) ! (i - k) else m ! i)" .
  qed
qed

lemma mergePhases_7:
  assumes "length merged = 7" and "length phases = 7"
  shows "length (mergePhases 7 merged phases) = 7"
    and "i < 7 \<Longrightarrow> mergePhases 7 merged phases ! i = merged ! i @ phases ! i"
  using mergePhases_aux [of 0 phases merged 7] assms
  by (simp_all add: mergePhases_def)


lemma fold_grid:
  "fold (\<lambda>v. fold (\<lambda>u. g (h u v)) us) vs st
     = fold g (concat (map (\<lambda>v. map (\<lambda>u. h u v) us) vs)) st"
proof (induction vs arbitrary: st)
  case Nil
  show ?case by simp
next
  case (Cons v vs)
  have "fold (\<lambda>u. g (h u v)) us st = fold g (map (\<lambda>u. h u v) us) st" for st
    by (simp add: fold_map comp_def)
  then show ?case by (simp add: Cons.IH)
qed

lemma rosetteTile_fold:
  assumes "0 < outerRadius ros"
  shows "rosetteTile ros width height
           = Some (fold (\<lambda>c m. mergePhases 7 m (build ros (fst c) (snd c)))
                     (roseCentres ros width height) (replicate 7 []))"
proof -
  have sp: "0 < roseSpacing ros" using assms by (simp add: roseSpacing_def)
  then have rh: "0 < roseRowH ros" by (simp add: roseRowH_def)
  let ?cols = "countsFrom (- 1) (roseSpacing ros) (width + roseSpacing ros)"
  let ?rows = "countsFrom (- 1) (roseRowH ros) (height + roseSpacing ros)"
  let ?g = "\<lambda>c m. mergePhases 7 m (build ros (fst c) (snd c))"
  have cell: "tileCell ros (roseSpacing ros) (roseRowH ros) row col
                = ?g (roseCentre (roseSpacing ros) (roseRowH ros) row col)" for row col
    by (intro ext) (simp add: tileCell_def Let_def)
  have inner: "forInt (\<lambda>col m. Some (tileCell ros (roseSpacing ros) (roseRowH ros) row col m))
                 (roseSpacing ros) (width + roseSpacing ros) (- 1)
               = (\<lambda>m. Some (fold (\<lambda>col. ?g (roseCentre (roseSpacing ros) (roseRowH ros) row col))
                                ?cols m))" for row
    by (intro ext) (simp add: forInt_foldM [OF sp] foldM_Some cell)
  have "rosetteTile ros width height
          = forInt (\<lambda>row. forInt (\<lambda>col m. Some (tileCell ros (roseSpacing ros) (roseRowH ros) row col m))
                              (roseSpacing ros) (width + roseSpacing ros) (- 1))
              (roseRowH ros) (height + roseSpacing ros) (- 1) (replicate 7 [])"
    by (simp add: rosetteTile_def Let_def roseSpacing_def roseRowH_def)
  also have "\<dots> = Some (fold (\<lambda>row. fold (\<lambda>col. ?g (roseCentre (roseSpacing ros) (roseRowH ros) row col))
                                       ?cols) ?rows (replicate 7 []))"
    by (simp add: inner forInt_foldM [OF rh] foldM_Some)
  also have "\<dots> = Some (fold ?g (roseCentres ros width height) (replicate 7 []))"
    unfolding roseCentres_def
    using fold_grid [of ?g "\<lambda>col row. roseCentre (roseSpacing ros) (roseRowH ros) row col"
        ?cols ?rows "replicate 7 []"]
    by simp
  finally show ?thesis .
qed

lemma fold_merge_counts:
  assumes "length m = 7"
  shows "length (fold (\<lambda>c m. mergePhases 7 m (build ros (fst c) (snd c))) cs m) = 7
         \<and> (\<forall>i < 7. length (fold (\<lambda>c m. mergePhases 7 m (build ros (fst c) (snd c))) cs m ! i)
               = length (m ! i) + (\<Sum>c\<leftarrow>cs. length (build ros (fst c) (snd c) ! i)))"
  using assms
proof (induction cs arbitrary: m)
  case Nil
  then show ?case by simp
next
  case (Cons c cs)
  let ?m = "mergePhases 7 m (build ros (fst c) (snd c))"
  have l: "length ?m = 7"
    using mergePhases_7(1) [OF Cons.prems length_build] .
  have n: "?m ! i = m ! i @ build ros (fst c) (snd c) ! i" if "i < 7" for i
    using mergePhases_7(2) [OF Cons.prems length_build that] .
  show ?case
    using Cons.IH [OF l] by (simp add: n)
qed

text \<open>Claim C5. \<^verbatim>\<open>build\<close> returns seven phases, whatever the configuration and the centre.
  For \<open>outerRadius > 0\<close> (so that the loops of \<^verbatim>\<open>tile\<close> end) \<^verbatim>\<open>tile\<close> returns seven
  merged phases, and the number of commands of each is the sum, over the rosettes placed,
  of the number of commands of that phase of the rosette.\<close>

theorem rosette_seven_phases:
  "length (build ros cx cy) = 7
   \<and> (0 < outerRadius ros \<longrightarrow>
        (\<exists>merged. rosetteTile ros width height = Some merged
           \<and> length merged = 7
           \<and> (\<forall>i < 7. length (merged ! i)
                 = (\<Sum>c\<leftarrow>roseCentres ros width height. length (build ros (fst c) (snd c) ! i)))))"
proof (intro conjI impI)
  show "length (build ros cx cy) = 7" by (rule length_build)
next
  assume "0 < outerRadius ros"
  then show "\<exists>merged. rosetteTile ros width height = Some merged
           \<and> length merged = 7
           \<and> (\<forall>i < 7. length (merged ! i)
                 = (\<Sum>c\<leftarrow>roseCentres ros width height. length (build ros (fst c) (snd c) ! i)))"
    using fold_merge_counts [of "replicate 7 []" ros "roseCentres ros width height"]
    by (simp add: rosetteTile_fold)
qed


text \<open>Eight petals, radius 100, a viewport of 800 by 600: the first merged phase holds the
  three guide circles of every rosette placed.\<close>

theorem rosette_seven_phases_witness:
  "0 < outerRadius (newRosette 8 3 100)
   \<and> length (build (newRosette 8 3 100) 0 0) = 7
   \<and> (\<exists>merged. rosetteTile (newRosette 8 3 100) 800 600 = Some merged
         \<and> length merged = 7
         \<and> length (merged ! 0) = 3 * length (roseCentres (newRosette 8 3 100) 800 600))"
proof -
  let ?r = "newRosette 8 3 100"
  have p: "0 < outerRadius ?r" by (simp add: newRosette_def)
  have c: "length (build ?r (fst c) (snd c) ! 0) = 3" for c
    by (simp add: build_def Let_def)
  from rosette_seven_phases [of ?r 0 0 800 600] p
  obtain merged where m: "rosetteTile ?r 800 600 = Some merged" "length merged = 7"
    "\<forall>i < 7. length (merged ! i)
        = (\<Sum>c\<leftarrow>roseCentres ?r 800 600. length (build ?r (fst c) (snd c) ! i))"
    by blast
  from m(3) have "length (merged ! 0) = (\<Sum>c\<leftarrow>roseCentres ?r 800 600. 3)"
    by (simp add: c)
  then have "length (merged ! 0) = 3 * length (roseCentres ?r 800 600)"
    by (simp add: sum_list_triv)
  with m(1,2) p length_build [of ?r 0 0] show ?thesis by blast
qed

section \<open>The petals of a rosette\<close>











section \<open>A rosette of four petals that skips two\<close>

lemma upt_4: "[0..<4] = [0, 1, 2, 3]"
  by code_simp

lemma circlePts_4: "circlePts 4 0 0 rad = [(rad, 0), (0, rad), (- rad, 0), (0, - rad)]"
proof -
  have a: "TWO_PI / real 4 * real 0 = 0" "TWO_PI / real 4 * real 1 = pi / 2"
    "TWO_PI / real 4 * real 2 = pi" "TWO_PI / real 4 * real 3 = 3 / 2 * pi"
    by (simp_all add: TWO_PI_def)
  have "circlePts 4 0 0 rad
          = map (\<lambda>i. (0 + rad * cos (TWO_PI / real 4 * real i), 0 + rad * sin (TWO_PI / real 4 * real i)))
              [0, 1, 2, 3]"
    unfolding circlePts_def Let_def upt_4 ..
  also have "\<dots> = [(rad, 0), (0, rad), (- rad, 0), (0, - rad)]"
    unfolding list.map a using cos_3over2_pi sin_3over2_pi by simp
  finally show ?thesis .
qed

lemma rosette42_fields:
  "numPetals (newRosette 4 2 100) = 4" "connectEveryN (newRosette 4 2 100) = 2"
  "outerRadius (newRosette 4 2 100) = 100" "middleRadius (newRosette 4 2 100) = 50"
  "innerRadius (newRosette 4 2 100) = 21"
  by (simp_all add: newRosette_def)


lemma rosette42_diagLines:
  "buildDiagLines (newRosette 4 2 100) 0 0 =
     [\<lparr>x1 = 50, y1 = 0, x2 = 0, y2 = 21\<rparr>, \<lparr>x1 = 0, y1 = 50, x2 = - 21, y2 = 0\<rparr>,
      \<lparr>x1 = - 50, y1 = 0, x2 = 0, y2 = - 21\<rparr>, \<lparr>x1 = 0, y1 = - 50, x2 = 21, y2 = 0\<rparr>,
      \<lparr>x1 = 0, y1 = 50, x2 = 21, y2 = 0\<rparr>, \<lparr>x1 = - 50, y1 = 0, x2 = 0, y2 = 21\<rparr>,
      \<lparr>x1 = 0, y1 = - 50, x2 = - 21, y2 = 0\<rparr>, \<lparr>x1 = 50, y1 = 0, x2 = 0, y2 = - 21\<rparr>]"
  by (simp add: buildDiagLines_def rosette42_fields circlePts_4 diagLinesOf_def upt_4 Let_def)

lemma rosette42_outerLines:
  "outerLinesOf 4 2 (circlePts 4 0 0 100) =
     [\<lparr>x1 = 100, y1 = 0, x2 = - 100, y2 = 0\<rparr>, \<lparr>x1 = 0, y1 = 100, x2 = 0, y2 = - 100\<rparr>,
      \<lparr>x1 = - 100, y1 = 0, x2 = 100, y2 = 0\<rparr>, \<lparr>x1 = 0, y1 = - 100, x2 = 0, y2 = 100\<rparr>]"
  by (simp add: outerLinesOf_def circlePts_4 upt_4 Let_def)


lemma nearest_50_0:
  "nearestOuter (outerLinesOf 4 2 (circlePts 4 0 0 100)) 0 21 50 0 = Some (0, (50, 0))"
  by (simp add: rosette42_outerLines nearestOuter_def lineIntersect_def hypot_def Let_def)


lemma rosette42_diagExt:
  "buildDiagExt (newRosette 4 2 100) 0 0 =
     [\<lparr>x1 = 50, y1 = 0, x2 = 50, y2 = 0, tip = (50, 0)\<rparr>,
      \<lparr>x1 = 0, y1 = 50, x2 = 0, y2 = 50, tip = (0, 50)\<rparr>,
      \<lparr>x1 = - 50, y1 = 0, x2 = - 50, y2 = 0, tip = (- 50, 0)\<rparr>,
      \<lparr>x1 = 0, y1 = - 50, x2 = 0, y2 = - 50, tip = (0, - 50)\<rparr>,
      \<lparr>x1 = 0, y1 = 50, x2 = 0, y2 = 50, tip = (0, 50)\<rparr>,
      \<lparr>x1 = - 50, y1 = 0, x2 = - 50, y2 = 0, tip = (- 50, 0)\<rparr>,
      \<lparr>x1 = 0, y1 = - 50, x2 = 0, y2 = - 50, tip = (0, - 50)\<rparr>,
      \<lparr>x1 = 50, y1 = 0, x2 = 50, y2 = 0, tip = (50, 0)\<rparr>]"
  by (simp add: buildDiagExt_def rosette42_fields rosette42_diagLines rosette42_outerLines
      diagExtsOf_def diagExtOf_def nearestOuter_def lineIntersect_def hypot_def Let_def)



lemma jsmod_once:
  assumes "0 < b" and "b \<le> a" and "a < 2 * b"
  shows "jsmod a b = a - b"
proof -
  have q: "1 \<le> a / b" "a / b < 2"
    using assms by (simp_all add: pos_le_divide_eq pos_divide_less_eq)
  then have "0 \<le> a / b" by linarith
  then have "\<bar>a / b\<bar> = a / b" by (rule abs_of_nonneg)
  moreover have "\<lfloor>a / b\<rfloor> = 1" using q by (intro floor_unique) simp_all
  ultimately have "\<lfloor>\<bar>a / b\<bar>\<rfloor> = 1" by simp
  moreover have "0 < a / b" using q(1) by linarith
  then have "sgn (a / b) = 1" by (rule sgn_pos)
  ultimately show ?thesis by (simp add: jsmod_def)
qed


lemma delta_east: "tip e = (50, 0) \<Longrightarrow> tipDelta 0 0 (pi / 4) e = pi / 4"
proof -
  assume t: "tip e = (50, 0)"
  have j: "jsmod (11 * pi / 4) (pi * 2) = 3 * pi / 4"
    using jsmod_once [of "pi * 2" "11 * pi / 4"] by simp
  show ?thesis
    by (simp add: tipDelta_def t atan2_def TWO_PI_def Let_def j)
qed

lemma delta_north: "tip e = (0, 50) \<Longrightarrow> tipDelta 0 0 (pi / 4) e = pi / 4"
proof -
  assume t: "tip e = (0, 50)"
  have j: "jsmod (13 * pi / 4) (pi * 2) = 5 * pi / 4"
    using jsmod_once [of "pi * 2" "13 * pi / 4"] by simp
  show ?thesis
    by (simp add: tipDelta_def t atan2_def TWO_PI_def Let_def j)
qed

lemma delta_west: "tip e = (- 50, 0) \<Longrightarrow> tipDelta 0 0 (pi / 4) e = 3 * pi / 4"
proof -
  assume t: "tip e = (- 50, 0)"
  have j: "jsmod (15 * pi / 4) (pi * 2) = 7 * pi / 4"
    using jsmod_once [of "pi * 2" "15 * pi / 4"] by simp
  show ?thesis
    by (simp add: tipDelta_def t atan2_def TWO_PI_def Let_def j)
qed

lemma delta_south: "tip e = (0, - 50) \<Longrightarrow> tipDelta 0 0 (pi / 4) e = 3 * pi / 4"
proof -
  assume t: "tip e = (0, - 50)"
  have j: "jsmod (9 * pi / 4) (pi * 2) = pi / 4"
    using jsmod_once [of "pi * 2" "9 * pi / 4"] by simp
  show ?thesis
    by (simp add: tipDelta_def t atan2_def TWO_PI_def Let_def j)
qed




lemma rosette42_deltas:
  "list_all (\<lambda>e. pi / 4 \<le> tipDelta 0 0 (pi / 4) e) (buildDiagExt (newRosette 4 2 100) 0 0)"
  unfolding rosette42_diagExt
  by (simp add: delta_east delta_north delta_west delta_south)



subsection \<open>A rosette of two petals\<close>










end
